theory Spec2Isabelle
  imports Complex_Main "HOL-Library.Multiset"
begin

section \<open>The AED program: data and arithmetic\<close>

text \<open>
  The program keeps a recorded ECG trace in three vectors, \<^verbatim>\<open>vector<double> timestamp\<close>,
  \<^verbatim>\<open>vector<double> datapoint\<close> and \<^verbatim>\<open>vector<int> rpeak\<close>, and computes four numbers
  from them. A \<^verbatim>\<open>vector\<close> is a list. A \<^verbatim>\<open>double\<close> is idealised as a real number: rounding
  is not modelled, and a division by zero, whose value in the program is an infinity or a
  NaN and no real number, is the outcome \<open>Not_finite\<close>. An \<^verbatim>\<open>int\<close> or \<^verbatim>\<open>size_t\<close> counter is
  an unbounded integer (a trace never holds \<open>2^31\<close> samples). Reading a vector outside its
  bounds is undefined behaviour in C++; here it is the outcome \<open>Out_of_range\<close>.
\<close>

datatype error = Out_of_range | Not_finite

text \<open>\<^verbatim>\<open>v[i]\<close>, with the index converted as C++ converts it: a negative index is out of range.\<close>

definition vec_at :: "'a list \<Rightarrow> int \<Rightarrow> error + 'a" where
  "vec_at v i = (if 0 \<le> i \<and> i < int (length v) then Inr (v ! nat i) else Inl Out_of_range)"

text \<open>\<^verbatim>\<open>x / y\<close> on doubles.\<close>

definition double_div :: "real \<Rightarrow> real \<Rightarrow> error + real" where
  "double_div x y = (if y = 0 then Inl Not_finite else Inr (x / y))"

section \<open>Step 5: the baseline\<close>

definition func_baseline :: "real list \<Rightarrow> error + real" where
  "func_baseline datapoint0 =
     (let datapoint = sort datapoint0;
          n = int (length datapoint div 2)
      in if length datapoint mod 2 = 1 then vec_at datapoint n
         else (case vec_at datapoint (n - 1) of
                 Inl e \<Rightarrow> Inl e
               | Inr lo \<Rightarrow>
                   (case vec_at datapoint n of
                      Inl e \<Rightarrow> Inl e
                    | Inr hi \<Rightarrow> Inr ((lo + hi) / 2))))"

section \<open>Step 6: the average amplitude\<close>

text \<open>The \<^verbatim>\<open>for\<close> loop over \<^verbatim>\<open>rpeak\<close>; its state is \<^verbatim>\<open>total\<close> (here \<open>total_amp\<close>) and \<^verbatim>\<open>rpeak1\<close>.\<close>

function avg_amp_loop ::
  "real list \<Rightarrow> int list \<Rightarrow> real \<Rightarrow> nat \<Rightarrow> real \<Rightarrow> int \<Rightarrow> error + (real \<times> int)" where
  "avg_amp_loop datapoint rpeak baseline i total_amp rpeak1 =
     (if i < length rpeak then
        (if rpeak ! i = 1 then
           (case vec_at datapoint (int i) of
              Inl e \<Rightarrow> Inl e
            | Inr d \<Rightarrow>
                avg_amp_loop datapoint rpeak baseline (Suc i) (total_amp + \<bar>d - baseline\<bar>) (rpeak1 + 1))
         else avg_amp_loop datapoint rpeak baseline (Suc i) total_amp rpeak1)
      else Inr (total_amp, rpeak1))"
  by pat_completeness auto
termination
  by (relation "measure (\<lambda>(datapoint, rpeak, baseline, i, total_amp, rpeak1). length rpeak - i)") auto

declare avg_amp_loop.simps [simp del]

definition func_avg_amp :: "real list \<Rightarrow> int list \<Rightarrow> real \<Rightarrow> error + real" where
  "func_avg_amp datapoint rpeak baseline =
     (case avg_amp_loop datapoint rpeak baseline 0 0 0 of
        Inl e \<Rightarrow> Inl e
      | Inr (total_amp, rpeak1) \<Rightarrow>
          if rpeak1 \<noteq> 0 then double_div total_amp (real_of_int rpeak1) else Inr 0)"

section \<open>Step 7: the heart rate\<close>

text \<open>
  The \<^verbatim>\<open>for\<close> loop over \<^verbatim>\<open>rpeak\<close>; its state is \<^verbatim>\<open>timebetween\<close>, \<^verbatim>\<open>prev\<close> and \<^verbatim>\<open>cnt\<close>
  (all three are doubles in the source).
\<close>

function bpm_loop ::
  "real list \<Rightarrow> int list \<Rightarrow> nat \<Rightarrow> real \<Rightarrow> real \<Rightarrow> real \<Rightarrow> error + (real \<times> real \<times> real)" where
  "bpm_loop timestamp rpeak i timebetween prev cnt =
     (if i < length rpeak then
        (if rpeak ! i = 1 then
           (case vec_at timestamp (int i) of
              Inl e \<Rightarrow> Inl e
            | Inr t \<Rightarrow>
                (if prev \<noteq> - 1 then bpm_loop timestamp rpeak (Suc i) (timebetween + (t - prev)) t (cnt + 1)
                 else bpm_loop timestamp rpeak (Suc i) timebetween t cnt))
         else bpm_loop timestamp rpeak (Suc i) timebetween prev cnt)
      else Inr (timebetween, prev, cnt))"
  by pat_completeness auto
termination
  by (relation "measure (\<lambda>(timestamp, rpeak, i, timebetween, prev, cnt). length rpeak - i)") auto

declare bpm_loop.simps [simp del]

definition func_bpm :: "real list \<Rightarrow> int list \<Rightarrow> error + real" where
  "func_bpm timestamp rpeak =
     (case bpm_loop timestamp rpeak 0 0 (- 1) 0 of
        Inl e \<Rightarrow> Inl e
      | Inr (timebetween, prev, cnt) \<Rightarrow>
          if cnt < 2 then Inr 0
          else (case double_div timebetween cnt of
                  Inl e \<Rightarrow> Inl e
                | Inr avg \<Rightarrow> double_div 60 avg))"

section \<open>Step 8: the uniformity\<close>

text \<open>The inner \<^verbatim>\<open>for (int j=prev_peak; j<(int)i; j++)\<close> loop; \<open>i\<close> is the current peak.\<close>

function deflection_loop :: "real list \<Rightarrow> real \<Rightarrow> int \<Rightarrow> int \<Rightarrow> int \<Rightarrow> error + int" where
  "deflection_loop datapoint baseline i j cnt =
     (if j < i then
        (case vec_at datapoint j of
           Inl e \<Rightarrow> Inl e
         | Inr y1 \<Rightarrow>
             (case vec_at datapoint (j + 1) of
                Inl e \<Rightarrow> Inl e
              | Inr y2 \<Rightarrow>
                  deflection_loop datapoint baseline i (j + 1)
                    (if (y1 > baseline \<and> y2 \<le> baseline) \<or> (y1 \<le> baseline \<and> y2 > baseline)
                     then cnt + 1 else cnt)))
      else Inr cnt)"
  by pat_completeness auto
termination
  by (relation "measure (\<lambda>(datapoint, baseline, i, j, cnt). nat (i - j))") auto

declare deflection_loop.simps [simp del]

text \<open>The outer loop; its state is \<^verbatim>\<open>count\<close> (here \<open>counts\<close>), \<^verbatim>\<open>prev_peak\<close> and \<^verbatim>\<open>rpeak1\<close>.\<close>

function uniformity_loop ::
  "real list \<Rightarrow> int list \<Rightarrow> real \<Rightarrow> nat \<Rightarrow> int list \<Rightarrow> int \<Rightarrow> int \<Rightarrow> error + (int list \<times> int \<times> int)" where
  "uniformity_loop datapoint rpeak baseline i counts prev_peak rpeak1 =
     (if i < length rpeak then
        (if rpeak ! i = 1 then
           (if prev_peak \<noteq> - 1 then
              (case deflection_loop datapoint baseline (int i) prev_peak 0 of
                 Inl e \<Rightarrow> Inl e
               | Inr cnt \<Rightarrow>
                   uniformity_loop datapoint rpeak baseline (Suc i) (counts @ [cnt]) (int i) (rpeak1 + 1))
            else uniformity_loop datapoint rpeak baseline (Suc i) counts (int i) (rpeak1 + 1))
         else uniformity_loop datapoint rpeak baseline (Suc i) counts prev_peak rpeak1)
      else Inr (counts, prev_peak, rpeak1))"
  by pat_completeness auto
termination
  by (relation "measure (\<lambda>(datapoint, rpeak, baseline, i, counts, prev_peak, rpeak1). length rpeak - i)") auto

declare uniformity_loop.simps [simp del]

definition func_uniformity :: "real list \<Rightarrow> int list \<Rightarrow> real \<Rightarrow> error + real" where
  "func_uniformity datapoint rpeak baseline =
     (case uniformity_loop datapoint rpeak baseline 0 [] (- 1) 0 of
        Inl e \<Rightarrow> Inl e
      | Inr (counts, prev_peak, rpeak1) \<Rightarrow>
          if rpeak1 < 2 then Inr 0
          else
            (let sum_c = foldl (\<lambda>s x. s + real_of_int x) 0 counts in
             case double_div sum_c (real (length counts)) of
               Inl e \<Rightarrow> Inl e
             | Inr mean \<Rightarrow>
                 (let var = foldl (\<lambda>v x. v + (real_of_int x - mean) * (real_of_int x - mean)) 0 counts in
                  case double_div var (real (length counts)) of
                    Inl e \<Rightarrow> Inl e
                  | Inr var' \<Rightarrow> Inr (sqrt var'))))"

section \<open>Step 9 and the main program\<close>

definition shock_decision :: "real \<Rightarrow> real \<Rightarrow> real \<Rightarrow> real \<Rightarrow> string" where
  "shock_decision avg_amp baseline unif bpm =
     (if avg_amp < 0.1 \<or> baseline > 1.0 \<or> (unif \<ge> 1.0 \<and> bpm < 200.0) \<or> bpm \<le> 150.0
      then ''NO, DO NOT SHOCK'' else ''YES, SHOCK!'')"

text \<open>
  What a run does, in order: the lines written to \<^verbatim>\<open>cout\<close> (each a sequence of string and
  number items, ended by \<^verbatim>\<open>endl\<close>) and the functions called. \<^verbatim>\<open>clean_ecg\<close> and
  \<^verbatim>\<open>visualize_ecg\<close> come from \<^verbatim>\<open>cleaner.h\<close> and \<^verbatim>\<open>visualize.h\<close>: the first is a parameter of
  the model, the second is known only as a call.
\<close>

datatype callee = Clean_ecg | Visualize_ecg | Func_baseline | Func_avg_amp | Func_bpm | Func_uniformity

datatype item = Str string | Num real

datatype event = Cout "item list" | Call callee

text \<open>
  Steps 3 to 9 of \<^verbatim>\<open>main\<close>, from the three loaded vectors on (\<open>unif\<close> is the source's
  \<^verbatim>\<open>uniformity\<close>). An estimator that ends in \<open>Inl e\<close> ends the description of the run.
\<close>

definition main_pipeline ::
  "(real list \<Rightarrow> bool) \<Rightarrow> real list \<Rightarrow> real list \<Rightarrow> int list \<Rightarrow> error + event list" where
  "main_pipeline clean_ecg timestamp datapoint rpeak =
     (if \<not> clean_ecg datapoint then
        Inr [Call Clean_ecg, Cout [Str ''Is signal clean? NO, DO NOT SHOCK''], Cout [],
             Cout [Str ''** Done **'']]
      else
        (case func_baseline datapoint of
           Inl e \<Rightarrow> Inl e
         | Inr baseline \<Rightarrow>
        (case func_avg_amp datapoint rpeak baseline of
           Inl e \<Rightarrow> Inl e
         | Inr avg_amp \<Rightarrow>
        (case func_bpm timestamp rpeak of
           Inl e \<Rightarrow> Inl e
         | Inr bpm \<Rightarrow>
        (case func_uniformity datapoint rpeak baseline of
           Inl e \<Rightarrow> Inl e
         | Inr unif \<Rightarrow>
             Inr [Call Clean_ecg, Cout [Str ''Is signal clean? YES''],
                  Call Visualize_ecg,
                  Call Func_baseline, Cout [Str ''Baseline? '', Num baseline],
                  Call Func_avg_amp, Cout [Str ''Average amplitude? '', Num avg_amp],
                  Call Func_bpm, Cout [Str ''BPM? '', Num bpm],
                  Call Func_uniformity,
                  Cout [Str ''Organized? '', Str (if unif < 1.0 then ''YES'' else ''NO''),
                        Str '' ('', Num unif, Str '')''],
                  Cout [Str ''Shock patient? '', Str (shock_decision avg_amp baseline unif bpm)],
                  Cout [], Cout [Str ''** Done **'']])))))"

text \<open>
  Step 2, the \<^verbatim>\<open>while (true)\<close> loop that fills the vectors. The stream \<^verbatim>\<open>file\<close> is a state of
  any type; \<^verbatim>\<open>file >> x\<close> for a double and for an int are the parameters \<open>get_double\<close> and
  \<open>get_int\<close>, which give the value read and the stream after it, or \<open>None\<close> when the
  extraction sets \<^verbatim>\<open>failbit\<close>. In \<^verbatim>\<open>file >> x >> y\<close> the second extraction is not tried after
  a failed first one. Nothing in the loop itself bounds the number of rounds, so the loop
  is a partial function: \<open>None\<close> is a run that never leaves it.
\<close>

partial_function (option) load_loop ::
  "('s \<Rightarrow> (real \<times> 's) option) \<Rightarrow> ('s \<Rightarrow> (int \<times> 's) option) \<Rightarrow> 's \<Rightarrow>
   real list \<Rightarrow> real list \<Rightarrow> int list \<Rightarrow> (real list \<times> real list \<times> int list) option" where
  "load_loop get_double get_int file timestamp datapoint rpeak =
     (case get_double file of
        None \<Rightarrow> Some (timestamp, datapoint, rpeak)
      | Some (x, file1) \<Rightarrow>
          (case get_double file1 of
             None \<Rightarrow> Some (timestamp, datapoint, rpeak)
           | Some (y, file2) \<Rightarrow>
               (case get_int file2 of
                  None \<Rightarrow> Some (timestamp @ [x], datapoint @ [y], rpeak)
                | Some (z, file3) \<Rightarrow>
                    load_loop get_double get_int file3 (timestamp @ [x]) (datapoint @ [y]) (rpeak @ [z]))))"

text \<open>The whole of \<^verbatim>\<open>main\<close>; \<open>file = None\<close> is an \<^verbatim>\<open>ecg.dat\<close> that cannot be opened.\<close>

definition main ::
  "('s \<Rightarrow> (real \<times> 's) option) \<Rightarrow> ('s \<Rightarrow> (int \<times> 's) option) \<Rightarrow> (real list \<Rightarrow> bool) \<Rightarrow>
   's option \<Rightarrow> (error + event list) option" where
  "main get_double get_int clean_ecg file =
     (case file of
        None \<Rightarrow>
          Some (Inr [Cout [Str ''** Starting AED Software **''], Cout [],
                     Cout [Str ''ERROR: input file not found'']])
      | Some f \<Rightarrow>
          (case load_loop get_double get_int f [] [] [] of
             None \<Rightarrow> None
           | Some (timestamp, datapoint, rpeak) \<Rightarrow>
               Some (case main_pipeline clean_ecg timestamp datapoint rpeak of
                       Inl e \<Rightarrow> Inl e
                     | Inr evs \<Rightarrow>
                         Inr (Cout [Str ''** Starting AED Software **''] # Cout [] # evs))))"

text \<open>
  What the loop has read when it stops, told from the stream alone. \<open>read_records n\<close>
  reads \<open>n\<close> complete records (timestamp, amplitude, flag) from the stream. \<open>stop_at\<close>
  looks at the stream after them: the loop stops there with \<open>No_record\<close> when the next
  timestamp or the next amplitude is missing or does not parse, and with \<open>No_flag x y\<close>
  when the timestamp \<open>x\<close> and the amplitude \<open>y\<close> parse and the flag after them is missing
  or does not parse; \<open>None\<close> is a stream that goes on with one more complete record.
\<close>

datatype stop = No_record | No_flag real real

definition stop_at ::
  "('s \<Rightarrow> (real \<times> 's) option) \<Rightarrow> ('s \<Rightarrow> (int \<times> 's) option) \<Rightarrow> 's \<Rightarrow> stop option" where
  "stop_at get_double get_int f =
     (case get_double f of
        None \<Rightarrow> Some No_record
      | Some (x, f1) \<Rightarrow>
          (case get_double f1 of
             None \<Rightarrow> Some No_record
           | Some (y, f2) \<Rightarrow>
               (case get_int f2 of
                  None \<Rightarrow> Some (No_flag x y)
                | Some (z, f3) \<Rightarrow> None)))"

fun read_records ::
  "('s \<Rightarrow> (real \<times> 's) option) \<Rightarrow> ('s \<Rightarrow> (int \<times> 's) option) \<Rightarrow> nat \<Rightarrow> 's \<Rightarrow>
   ((real \<times> real \<times> int) list \<times> 's) option" where
  "read_records get_double get_int 0 f = Some ([], f)"
| "read_records get_double get_int (Suc n) f =
     (case get_double f of
        None \<Rightarrow> None
      | Some (x, f1) \<Rightarrow>
          (case get_double f1 of
             None \<Rightarrow> None
           | Some (y, f2) \<Rightarrow>
               (case get_int f2 of
                  None \<Rightarrow> None
                | Some (z, f3) \<Rightarrow>
                    (case read_records get_double get_int n f3 of
                       None \<Rightarrow> None
                     | Some (recs, f') \<Rightarrow> Some ((x, y, z) # recs, f')))))"

text \<open>
  A stream to run the loader on: a file already split into its whitespace-separated fields.
  \<open>Int_field n\<close> is a decimal integer literal: \<^verbatim>\<open>>>\<close> accepts it for a double, and for an
  \<^verbatim>\<open>int\<close> when \<open>n\<close> is in the range of a 32-bit \<^verbatim>\<open>int\<close> (outside it the extraction sets
  \<^verbatim>\<open>failbit\<close>). \<open>Real_field r\<close> is text such as \<^verbatim>\<open>.5\<close> that \<^verbatim>\<open>>>\<close> accepts for a double and
  rejects for an int; \<open>Bad_field\<close> is text that neither accepts. The end of the file fails
  both.
\<close>

datatype field = Int_field int | Real_field real | Bad_field

fun get_double_fields :: "field list \<Rightarrow> (real \<times> field list) option" where
  "get_double_fields (Int_field n # fs) = Some (real_of_int n, fs)"
| "get_double_fields (Real_field r # fs) = Some (r, fs)"
| "get_double_fields (Bad_field # fs) = None"
| "get_double_fields [] = None"

fun get_int_fields :: "field list \<Rightarrow> (int \<times> field list) option" where
  "get_int_fields (Int_field n # fs) =
     (if - (2 ^ 31) \<le> n \<and> n < 2 ^ 31 then Some (n, fs) else None)"
| "get_int_fields (Real_field r # fs) = None"
| "get_int_fields (Bad_field # fs) = None"
| "get_int_fields [] = None"

section \<open>Peaks, intervals and deflections, as the specification words them\<close>

text \<open>
  The flagged indices of a trace in index order (a sample is flagged when its \<^verbatim>\<open>rpeak\<close>
  entry is 1), those from an index \<open>i\<close> on, and the pairs of neighbours in a list.
\<close>

definition peak_indices :: "int list \<Rightarrow> nat list" where
  "peak_indices rpeak = filter (\<lambda>k. rpeak ! k = 1) [0..<length rpeak]"

definition peaks_from :: "int list \<Rightarrow> nat \<Rightarrow> nat list" where
  "peaks_from rpeak i = filter (\<lambda>k. rpeak ! k = 1) [i..<length rpeak]"

definition consecutive :: "'a list \<Rightarrow> ('a \<times> 'a) list" where
  "consecutive ps = zip ps (tl ps)"

text \<open>
  The inter-peak intervals as pairs (timestamp of a peak, timestamp of the next peak),
  without those that begin at a peak whose timestamp is \<open>-1\<close>.
\<close>

definition kept_intervals :: "real list \<Rightarrow> int list \<Rightarrow> (real \<times> real) list" where
  "kept_intervals timestamp rpeak =
     filter (\<lambda>(a, b). a \<noteq> - 1) (consecutive (map ((!) timestamp) (peak_indices rpeak)))"

text \<open>
  A deflection between two neighbouring samples: one of the two amplitudes is strictly
  above the baseline and the other is at or below it. The deflection count of a window
  \<open>(prev, curr)\<close> is the number of positions \<open>j\<close> with \<open>prev \<le> j < curr\<close> that have a
  deflection between \<open>j\<close> and \<open>j + 1\<close>; there is one window for each pair of consecutive
  flagged indices.
\<close>

definition crosses :: "real \<Rightarrow> real \<Rightarrow> real \<Rightarrow> bool" where
  "crosses baseline y1 y2 = ((baseline < y1 \<and> y2 \<le> baseline) \<or> (baseline < y2 \<and> y1 \<le> baseline))"

definition deflections :: "real list \<Rightarrow> real \<Rightarrow> nat \<times> nat \<Rightarrow> nat" where
  "deflections datapoint baseline w =
     length (filter (\<lambda>j. crosses baseline (datapoint ! j) (datapoint ! Suc j)) [fst w..<snd w])"

definition deflection_counts :: "real list \<Rightarrow> int list \<Rightarrow> real \<Rightarrow> nat list" where
  "deflection_counts datapoint rpeak baseline =
     map (deflections datapoint baseline) (consecutive (peak_indices rpeak))"

text \<open>The population standard deviation: the squared deviations are divided by the length.\<close>

definition population_sd :: "real list \<Rightarrow> real" where
  "population_sd xs =
     sqrt ((\<Sum>x\<leftarrow>xs. (x - sum_list xs / real (length xs))\<^sup>2) / real (length xs))"

text \<open>
  The windows still to come when the outer loop of \<^verbatim>\<open>func_uniformity\<close> stands before the
  flagged indices \<open>ps\<close> with the last peak in \<^verbatim>\<open>prev_peak\<close> (\<open>-1\<close>: none yet).
\<close>

definition windows_from :: "int \<Rightarrow> nat list \<Rightarrow> (nat \<times> nat) list" where
  "windows_from prev_peak ps =
     (if prev_peak = - 1 then consecutive ps else consecutive (nat prev_peak # ps))"

text \<open>
  The median of a list already in ascending order: the middle element for an odd length,
  the average of the two middle elements for an even one. And what makes a number a median
  of any list: at least half of the elements are at most it, and at least half are at
  least it.
\<close>

definition median_sorted :: "real list \<Rightarrow> real" where
  "median_sorted ys =
     (if odd (length ys) then ys ! (length ys div 2)
      else (ys ! (length ys div 2 - 1) + ys ! (length ys div 2)) / 2)"

definition is_median :: "real \<Rightarrow> real list \<Rightarrow> bool" where
  "is_median m xs =
     (length xs \<le> 2 * length (filter (\<lambda>x. x \<le> m) xs)
      \<and> length xs \<le> 2 * length (filter (\<lambda>x. m \<le> x) xs))"

section \<open>The shock decision\<close>

text \<open>
  C2. The decision is the threshold rule: the verdict is \<^verbatim>\<open>NO, DO NOT SHOCK\<close> exactly when
  \<open>avg_amp < 0.1\<close>, or \<open>baseline > 1.0\<close>, or \<open>unif \<ge> 1.0\<close> and \<open>bpm < 200.0\<close>, or
  \<open>bpm \<le> 150.0\<close>, and \<^verbatim>\<open>YES, SHOCK!\<close> exactly otherwise; and on a clean trace whose four
  estimates are the numbers \<open>baseline\<close>, \<open>avg_amp\<close>, \<open>bpm\<close>, \<open>unif\<close> the program's verdict
  line is this function of the four numbers, followed only by the closing lines.
\<close>

theorem shock_decision_rule:
  "(shock_decision avg_amp baseline unif bpm = ''NO, DO NOT SHOCK'') =
     (avg_amp < 0.1 \<or> baseline > 1.0 \<or> (unif \<ge> 1.0 \<and> bpm < 200.0) \<or> bpm \<le> 150.0)
   \<and> (shock_decision avg_amp baseline unif bpm = ''YES, SHOCK!'') =
     (\<not> (avg_amp < 0.1 \<or> baseline > 1.0 \<or> (unif \<ge> 1.0 \<and> bpm < 200.0) \<or> bpm \<le> 150.0))
   \<and> (clean_ecg datapoint \<and> func_baseline datapoint = Inr baseline
        \<and> func_avg_amp datapoint rpeak baseline = Inr avg_amp
        \<and> func_bpm timestamp rpeak = Inr bpm
        \<and> func_uniformity datapoint rpeak baseline = Inr unif
      \<longrightarrow> (\<exists>pre. main_pipeline clean_ecg timestamp datapoint rpeak =
             Inr (pre @ [Cout [Str ''Shock patient? '', Str (shock_decision avg_amp baseline unif bpm)],
                         Cout [], Cout [Str ''** Done **'']])))"
proof (intro conjI impI)
  show "(shock_decision avg_amp baseline unif bpm = ''NO, DO NOT SHOCK'') =
     (avg_amp < 0.1 \<or> baseline > 1.0 \<or> (unif \<ge> 1.0 \<and> bpm < 200.0) \<or> bpm \<le> 150.0)"
    by (simp add: shock_decision_def)
  show "(shock_decision avg_amp baseline unif bpm = ''YES, SHOCK!'') =
     (\<not> (avg_amp < 0.1 \<or> baseline > 1.0 \<or> (unif \<ge> 1.0 \<and> bpm < 200.0) \<or> bpm \<le> 150.0))"
    by (simp add: shock_decision_def)
next
  assume h: "clean_ecg datapoint \<and> func_baseline datapoint = Inr baseline
        \<and> func_avg_amp datapoint rpeak baseline = Inr avg_amp
        \<and> func_bpm timestamp rpeak = Inr bpm
        \<and> func_uniformity datapoint rpeak baseline = Inr unif"
  let ?pre = "[Call Clean_ecg, Cout [Str ''Is signal clean? YES''],
                  Call Visualize_ecg,
                  Call Func_baseline, Cout [Str ''Baseline? '', Num baseline],
                  Call Func_avg_amp, Cout [Str ''Average amplitude? '', Num avg_amp],
                  Call Func_bpm, Cout [Str ''BPM? '', Num bpm],
                  Call Func_uniformity,
                  Cout [Str ''Organized? '', Str (if unif < 1.0 then ''YES'' else ''NO''),
                        Str '' ('', Num unif, Str '')'']]"
  have "main_pipeline clean_ecg timestamp datapoint rpeak =
             Inr (?pre @ [Cout [Str ''Shock patient? '', Str (shock_decision avg_amp baseline unif bpm)],
                         Cout [], Cout [Str ''** Done **'']])"
    using h by (simp add: main_pipeline_def)
  then show "\<exists>pre. main_pipeline clean_ecg timestamp datapoint rpeak =
             Inr (pre @ [Cout [Str ''Shock patient? '', Str (shock_decision avg_amp baseline unif bpm)],
                         Cout [], Cout [Str ''** Done **'']])"
    by blast
qed

theorem shock_decision_rule_witness:
  "func_baseline [4, 0, 0] = Inr 0 \<and> func_avg_amp [4, 0, 0] [1, 1, 1] 0 = Inr (4 / 3)
   \<and> func_bpm [0, 0.25, 0.5] [1, 1, 1] = Inr 240 \<and> func_uniformity [4, 0, 0] [1, 1, 1] 0 = Inr (1 / 2)
   \<and> shock_decision (4 / 3) 0 (1 / 2) 240 = ''YES, SHOCK!''
   \<and> (\<exists>pre. main_pipeline (\<lambda>d. True) [0, 0.25, 0.5] [4, 0, 0] [1, 1, 1] =
             Inr (pre @ [Cout [Str ''Shock patient? '', Str ''YES, SHOCK!''],
                         Cout [], Cout [Str ''** Done **'']]))"
proof -
  have b: "func_baseline [4, 0, 0] = Inr 0"
    by (simp add: func_baseline_def vec_at_def)
  have a: "func_avg_amp [4, 0, 0] [1, 1, 1] 0 = Inr (4 / 3)"
    by (simp add: func_avg_amp_def avg_amp_loop.simps vec_at_def double_div_def)
  have r: "func_bpm [0, 0.25, 0.5] [1, 1, 1] = Inr 240"
    by (simp add: func_bpm_def bpm_loop.simps vec_at_def double_div_def)
  have u: "func_uniformity [4, 0, 0] [1, 1, 1] 0 = Inr (1 / 2)"
    by (simp add: func_uniformity_def uniformity_loop.simps deflection_loop.simps vec_at_def double_div_def real_sqrt_divide)
  have d: "shock_decision (4 / 3) 0 (1 / 2) 240 = ''YES, SHOCK!''"
    using shock_decision_rule [of "4 / 3" 0 "1 / 2" 240] by simp
  have "\<exists>pre. main_pipeline (\<lambda>d. True) [0, 0.25, 0.5] [4, 0, 0] [1, 1, 1] =
             Inr (pre @ [Cout [Str ''Shock patient? '', Str (shock_decision (4 / 3) 0 (1 / 2) 240)],
                         Cout [], Cout [Str ''** Done **'']])"
    using b a r u
      shock_decision_rule [of "4 / 3" 0 "1 / 2" 240 "\<lambda>d. True" "[4, 0, 0]" "[1, 1, 1]" "[0, 0.25, 0.5]"]
    by blast
  then show ?thesis
    unfolding d using b a r u d by blast
qed

section \<open>The quality gate\<close>

text \<open>
  C7. When \<^verbatim>\<open>clean_ecg\<close> returns false on the loaded amplitudes, the run is: the call of
  \<^verbatim>\<open>clean_ecg\<close>, the line \<^verbatim>\<open>Is signal clean? NO, DO NOT SHOCK\<close>, an empty line and
  \<^verbatim>\<open>** Done **\<close>. It ends there: no call of \<^verbatim>\<open>visualize_ecg\<close> or of an estimator is in it.
  This holds from the three vectors on, and for the whole of \<^verbatim>\<open>main\<close> on every file whose
  loading returns.
\<close>

theorem unclean_signal_halts:
  "\<not> clean_ecg datapoint \<longrightarrow>
     main_pipeline clean_ecg timestamp datapoint rpeak =
       Inr [Call Clean_ecg, Cout [Str ''Is signal clean? NO, DO NOT SHOCK''], Cout [],
            Cout [Str ''** Done **'']]
     \<and> (\<forall>evs. main_pipeline clean_ecg timestamp datapoint rpeak = Inr evs \<longrightarrow>
           Call Visualize_ecg \<notin> set evs \<and> Call Func_baseline \<notin> set evs
           \<and> Call Func_avg_amp \<notin> set evs \<and> Call Func_bpm \<notin> set evs
           \<and> Call Func_uniformity \<notin> set evs)
     \<and> (load_loop get_double get_int file [] [] [] = Some (timestamp, datapoint, rpeak) \<longrightarrow>
           main get_double get_int clean_ecg (Some file) =
             Some (Inr [Cout [Str ''** Starting AED Software **''], Cout [],
                        Call Clean_ecg, Cout [Str ''Is signal clean? NO, DO NOT SHOCK''],
                        Cout [], Cout [Str ''** Done **'']]))"
  by (simp add: main_pipeline_def main_def)

theorem unclean_signal_halts_witness:
  "\<not> (\<lambda>d. False) [1 :: real]
   \<and> load_loop get_double_fields get_int_fields [Int_field 0, Int_field 1, Int_field 1] [] [] []
       = Some ([0], [1], [1])
   \<and> main_pipeline (\<lambda>d. False) [0] [1] [1] =
       Inr [Call Clean_ecg, Cout [Str ''Is signal clean? NO, DO NOT SHOCK''], Cout [],
            Cout [Str ''** Done **'']]
   \<and> main get_double_fields get_int_fields (\<lambda>d. False) (Some [Int_field 0, Int_field 1, Int_field 1]) =
       Some (Inr [Cout [Str ''** Starting AED Software **''], Cout [],
                  Call Clean_ecg, Cout [Str ''Is signal clean? NO, DO NOT SHOCK''],
                  Cout [], Cout [Str ''** Done **'']])"
proof -
  have l: "load_loop get_double_fields get_int_fields [Int_field 0, Int_field 1, Int_field 1] [] [] []
       = Some ([0], [1], [1])"
    by (simp add: load_loop.simps)
  show ?thesis
    using l
      unclean_signal_halts [of "\<lambda>d. False" "[1]" "[0]" "[1]" get_double_fields get_int_fields
        "[Int_field 0, Int_field 1, Int_field 1]"]
    by simp
qed

section \<open>A worked trace\<close>

text \<open>
  C8. On the trace with timestamps 0 to 9, amplitudes alternating 0.0 and 2.0 and the flag
  set at indices 0, 2, 4, 6, 8, when \<^verbatim>\<open>clean_ecg\<close> accepts the amplitudes: the baseline is 1,
  the average amplitude 1, the rate 30; \<open>baseline > 1.0\<close> is false and \<open>bpm \<le> 150.0\<close> is
  true; the verdict is \<^verbatim>\<open>NO, DO NOT SHOCK\<close>, and the run prints these values.
\<close>

theorem scenario_a:
  "clean_ecg [0, 2, 0, 2, 0, 2, 0, 2, 0, 2] \<longrightarrow>
     func_baseline [0, 2, 0, 2, 0, 2, 0, 2, 0, 2] = Inr 1
     \<and> func_avg_amp [0, 2, 0, 2, 0, 2, 0, 2, 0, 2] [1, 0, 1, 0, 1, 0, 1, 0, 1, 0] 1 = Inr 1
     \<and> func_bpm [0, 1, 2, 3, 4, 5, 6, 7, 8, 9] [1, 0, 1, 0, 1, 0, 1, 0, 1, 0] = Inr 30
     \<and> \<not> ((1 :: real) > 1.0) \<and> (30 :: real) \<le> 150.0
     \<and> shock_decision 1 1 0 30 = ''NO, DO NOT SHOCK''
     \<and> main_pipeline clean_ecg [0, 1, 2, 3, 4, 5, 6, 7, 8, 9] [0, 2, 0, 2, 0, 2, 0, 2, 0, 2]
          [1, 0, 1, 0, 1, 0, 1, 0, 1, 0] =
        Inr [Call Clean_ecg, Cout [Str ''Is signal clean? YES''],
             Call Visualize_ecg,
             Call Func_baseline, Cout [Str ''Baseline? '', Num 1],
             Call Func_avg_amp, Cout [Str ''Average amplitude? '', Num 1],
             Call Func_bpm, Cout [Str ''BPM? '', Num 30],
             Call Func_uniformity,
             Cout [Str ''Organized? '', Str ''YES'', Str '' ('', Num 0, Str '')''],
             Cout [Str ''Shock patient? '', Str ''NO, DO NOT SHOCK''],
             Cout [], Cout [Str ''** Done **'']]"
proof -
  have b: "func_baseline [0, 2, 0, 2, 0, 2, 0, 2, 0, 2] = Inr 1"
    by (simp add: func_baseline_def vec_at_def)
  have a: "func_avg_amp [0, 2, 0, 2, 0, 2, 0, 2, 0, 2] [1, 0, 1, 0, 1, 0, 1, 0, 1, 0] 1 = Inr 1"
    by (simp add: func_avg_amp_def avg_amp_loop.simps vec_at_def double_div_def)
  have r: "func_bpm [0, 1, 2, 3, 4, 5, 6, 7, 8, 9] [1, 0, 1, 0, 1, 0, 1, 0, 1, 0] = Inr 30"
    by (simp add: func_bpm_def bpm_loop.simps vec_at_def double_div_def)
  have u: "func_uniformity [0, 2, 0, 2, 0, 2, 0, 2, 0, 2] [1, 0, 1, 0, 1, 0, 1, 0, 1, 0] 1 = Inr 0"
    by (simp add: func_uniformity_def uniformity_loop.simps deflection_loop.simps vec_at_def double_div_def)
  have d: "shock_decision 1 1 0 30 = ''NO, DO NOT SHOCK''"
    by (simp add: shock_decision_def)
  show ?thesis
    using b a r u d by (simp add: main_pipeline_def)
qed

theorem scenario_a_witness:
  "(\<lambda>d. True) [0, 2, 0, 2, 0, 2, 0, 2, 0, 2 :: real]
   \<and> func_bpm [0, 1, 2, 3, 4, 5, 6, 7, 8, 9] [1, 0, 1, 0, 1, 0, 1, 0, 1, 0] = Inr 30
   \<and> shock_decision 1 1 0 30 = ''NO, DO NOT SHOCK''"
  using scenario_a [of "\<lambda>d. True"] by simp

section \<open>The rate at two peaks\<close>

text \<open>
  C1. On the timestamps 0, 1 with both samples flagged (two peaks, one interval of 1 s)
  \<^verbatim>\<open>func_bpm\<close> returns 0, where its header comment (\<^verbatim>\<open>0 if rpeak = 1 cases < 2\<close>, the rate
  otherwise) and the specification give 60: the test \<^verbatim>\<open>cnt<2\<close> counts intervals, not peaks. With a
  third peak at 2 s the rate is 60.
\<close>

theorem func_bpm_two_peaks:
  "func_bpm [0, 1] [1, 1] = Inr 0 \<and> func_bpm [0, 1, 2] [1, 1, 1] = Inr 60"
  by (simp add: func_bpm_def bpm_loop.simps vec_at_def double_div_def)

section \<open>The loops over the flagged samples\<close>

lemma peaks_from_step:
  "i < length rpeak \<Longrightarrow>
     peaks_from rpeak i = (if rpeak ! i = 1 then i # peaks_from rpeak (Suc i) else peaks_from rpeak (Suc i))"
  by (simp add: peaks_from_def upt_conv_Cons)

lemma peaks_from_end: "\<not> i < length rpeak \<Longrightarrow> peaks_from rpeak i = []"
  by (simp add: peaks_from_def)

lemma peaks_from_0: "peaks_from rpeak 0 = peak_indices rpeak"
  by (simp add: peaks_from_def peak_indices_def)

lemma avg_amp_loop_sum:
  "length rpeak \<le> length datapoint \<Longrightarrow>
   avg_amp_loop datapoint rpeak baseline i total_amp rpeak1 =
     Inr (total_amp + (\<Sum>k\<leftarrow>peaks_from rpeak i. \<bar>datapoint ! k - baseline\<bar>),
          rpeak1 + int (length (peaks_from rpeak i)))"
proof (induction datapoint rpeak baseline i total_amp rpeak1 rule: avg_amp_loop.induct)
  case (1 datapoint rpeak baseline i total_amp rpeak1)
  show ?case
  proof (cases "i < length rpeak")
    case False
    then show ?thesis by (subst avg_amp_loop.simps) (simp add: peaks_from_end)
  next
    case True
    note lt = True
    show ?thesis
    proof (cases "rpeak ! i = 1")
      case True
      have at: "vec_at datapoint (int i) = Inr (datapoint ! i)"
        using lt "1.prems" by (simp add: vec_at_def)
      show ?thesis
        using lt True at "1.IH"(1) [OF lt True at] "1.prems"
        by (subst avg_amp_loop.simps) (simp add: peaks_from_step)
    next
      case False
      show ?thesis
        using lt False "1.IH"(2) [OF lt False] "1.prems"
        by (subst avg_amp_loop.simps) (simp add: peaks_from_step)
    qed
  qed
qed

lemma avg_amp_loop_no_peak:
  "peaks_from rpeak i = [] \<Longrightarrow>
   avg_amp_loop datapoint rpeak baseline i total_amp rpeak1 = Inr (total_amp, rpeak1)"
proof (induction datapoint rpeak baseline i total_amp rpeak1 rule: avg_amp_loop.induct)
  case (1 datapoint rpeak baseline i total_amp rpeak1)
  show ?case
  proof (cases "i < length rpeak")
    case False
    then show ?thesis by (subst avg_amp_loop.simps) simp
  next
    case True
    have np: "rpeak ! i \<noteq> 1" and rest: "peaks_from rpeak (Suc i) = []"
      using "1.prems" peaks_from_step [OF True] by (auto split: if_splits)
    show ?thesis
      using True np "1.IH"(2) [OF True np rest]
      by (subst avg_amp_loop.simps) simp
  qed
qed

lemma bpm_loop_sum:
  "length rpeak \<le> length timestamp \<Longrightarrow>
   bpm_loop timestamp rpeak i timebetween prev cnt =
     Inr (timebetween + (\<Sum>(a, b)\<leftarrow>filter (\<lambda>(a, b). a \<noteq> - 1)
                (zip (prev # map ((!) timestamp) (peaks_from rpeak i)) (map ((!) timestamp) (peaks_from rpeak i))). b - a),
          last (prev # map ((!) timestamp) (peaks_from rpeak i)),
          cnt + real (length (filter (\<lambda>(a, b). a \<noteq> - 1)
                (zip (prev # map ((!) timestamp) (peaks_from rpeak i)) (map ((!) timestamp) (peaks_from rpeak i))))))"
proof (induction timestamp rpeak i timebetween prev cnt rule: bpm_loop.induct)
  case (1 timestamp rpeak i timebetween prev cnt)
  show ?case
  proof (cases "i < length rpeak")
    case False
    then show ?thesis by (subst bpm_loop.simps) (simp add: peaks_from_end)
  next
    case True
    note lt = True
    show ?thesis
    proof (cases "rpeak ! i = 1")
      case False
      show ?thesis
        using lt False "1.IH"(3) [OF lt False] "1.prems"
        by (subst bpm_loop.simps) (simp add: peaks_from_step)
    next
      case True
      note pk = True
      have at: "vec_at timestamp (int i) = Inr (timestamp ! i)"
        using lt "1.prems" by (simp add: vec_at_def)
      show ?thesis
      proof (cases "prev \<noteq> - 1")
        case True
        show ?thesis
          using lt pk at True "1.IH"(1) [OF lt pk at True] "1.prems"
          by (subst bpm_loop.simps) (simp add: peaks_from_step)
      next
        case False
        show ?thesis
          using lt pk at False "1.IH"(2) [OF lt pk at False] "1.prems"
          by (subst bpm_loop.simps) (simp add: peaks_from_step)
      qed
    qed
  qed
qed

lemma zip_sentinel:
  "filter (\<lambda>(a, b). a \<noteq> (s::real)) (zip (s # pts) pts) = filter (\<lambda>(a, b). a \<noteq> s) (consecutive pts)"
  by (cases pts) (simp_all add: consecutive_def)

lemma consecutive_no_sentinel:
  "s \<notin> set pts \<Longrightarrow> filter (\<lambda>(a, b). a \<noteq> (s::real)) (consecutive pts) = consecutive pts"
  unfolding consecutive_def
  by (rule filter_True) (auto dest: set_zip_leftD)

lemma length_consecutive: "length (consecutive pts) = length pts - 1"
  by (simp add: consecutive_def)

lemma bpm_loop_kept:
  assumes le: "length rpeak \<le> length timestamp"
  shows "bpm_loop timestamp rpeak 0 0 (- 1) 0 =
           Inr (\<Sum>(a, b)\<leftarrow>kept_intervals timestamp rpeak. b - a,
                last (- 1 # map ((!) timestamp) (peak_indices rpeak)),
                real (length (kept_intervals timestamp rpeak)))"
  unfolding bpm_loop_sum [OF le] kept_intervals_def peaks_from_0 zip_sentinel
  by simp

lemma func_bpm_value:
  assumes le: "length rpeak \<le> length timestamp"
  shows "func_bpm timestamp rpeak =
         (if length (kept_intervals timestamp rpeak) < 2 then Inr 0
          else if (\<Sum>(a, b)\<leftarrow>kept_intervals timestamp rpeak. b - a) = 0 then Inl Not_finite
          else Inr (60 / ((\<Sum>(a, b)\<leftarrow>kept_intervals timestamp rpeak. b - a)
                            / real (length (kept_intervals timestamp rpeak)))))"
  unfolding func_bpm_def bpm_loop_kept [OF le]
  by (simp add: double_div_def)

lemma func_avg_amp_value:
  assumes le: "length rpeak \<le> length datapoint"
  shows "func_avg_amp datapoint rpeak baseline =
        Inr (if peak_indices rpeak = [] then 0
             else (\<Sum>i\<leftarrow>peak_indices rpeak. \<bar>datapoint ! i - baseline\<bar>)
                    / real (length (peak_indices rpeak)))"
  using le by (simp add: func_avg_amp_def avg_amp_loop_sum peaks_from_0 double_div_def)

section \<open>The average amplitude\<close>

text \<open>
  C6. On amplitudes and flags of the same length \<^verbatim>\<open>func_avg_amp\<close> returns the mean of
  \<open>\<bar>datapoint ! i - baseline\<bar>\<close> over the flagged indices \<open>i\<close>, and 0 when no index is
  flagged; with no flagged index it returns 0 whatever the amplitudes are (and however
  many there are). The result is a number in each case: no vector is read out of range and
  nothing is divided by zero.
\<close>

theorem func_avg_amp_mean:
  "(length datapoint = length rpeak \<longrightarrow>
      func_avg_amp datapoint rpeak baseline =
        Inr (if peak_indices rpeak = [] then 0
             else (\<Sum>i\<leftarrow>peak_indices rpeak. \<bar>datapoint ! i - baseline\<bar>)
                    / real (length (peak_indices rpeak))))
   \<and> (peak_indices rpeak = [] \<longrightarrow> func_avg_amp datapoint rpeak baseline = Inr 0)"
proof (intro conjI impI)
  assume "length datapoint = length rpeak"
  then have "length rpeak \<le> length datapoint" by simp
  then show "func_avg_amp datapoint rpeak baseline =
        Inr (if peak_indices rpeak = [] then 0
             else (\<Sum>i\<leftarrow>peak_indices rpeak. \<bar>datapoint ! i - baseline\<bar>)
                    / real (length (peak_indices rpeak)))"
    by (rule func_avg_amp_value)
next
  assume "peak_indices rpeak = []"
  then have "peaks_from rpeak 0 = []" by (simp add: peaks_from_0)
  then show "func_avg_amp datapoint rpeak baseline = Inr 0"
    by (simp add: func_avg_amp_def avg_amp_loop_no_peak)
qed

theorem func_avg_amp_mean_witness:
  "length [3, 0, 5 :: real] = length [1, 0, 1 :: int] \<and> func_avg_amp [3, 0, 5] [1, 0, 1] 1 = Inr 3
   \<and> peak_indices [0, 2, 0] = [] \<and> func_avg_amp [3, 0, 5] [0, 2, 0] 1 = Inr 0"
proof -
  have p1: "peak_indices [1, 0, 1] = [0, Suc (Suc 0)]"
    by (simp add: peak_indices_def upt_rec)
  have p2: "peak_indices [0, 2, 0] = []"
    by (simp add: peak_indices_def upt_rec)
  show ?thesis
    using p1 p2 func_avg_amp_mean [of "[3, 0, 5]" "[1, 0, 1]" 1]
      func_avg_amp_mean [of "[3, 0, 5]" "[0, 2, 0]" 1]
    by simp
qed

section \<open>The sentinel of the rate loop\<close>

text \<open>
  C9. \<^verbatim>\<open>func_bpm\<close> keeps in \<^verbatim>\<open>prev\<close> the timestamp of the last peak and reads the value
  \<open>-1\<close> there as "no peak yet". So whenever there are at least as many timestamps as
  flags the loop ends with \<^verbatim>\<open>timebetween\<close> the sum, and \<^verbatim>\<open>cnt\<close> the number, of the intervals between
  consecutive peaks that do not begin at a peak with timestamp \<open>-1\<close>: an interval that
  begins at such a peak is in neither. The rate returned is computed from these two
  numbers alone. When no peak has timestamp \<open>-1\<close>, every interval between consecutive
  peaks is kept, one fewer than there are peaks.
\<close>

theorem func_bpm_sentinel:
  "length rpeak \<le> length timestamp \<longrightarrow>
     bpm_loop timestamp rpeak 0 0 (- 1) 0 =
       Inr (\<Sum>(a, b)\<leftarrow>kept_intervals timestamp rpeak. b - a,
            last (- 1 # map ((!) timestamp) (peak_indices rpeak)),
            real (length (kept_intervals timestamp rpeak)))
     \<and> func_bpm timestamp rpeak =
         (if length (kept_intervals timestamp rpeak) < 2 then Inr 0
          else if (\<Sum>(a, b)\<leftarrow>kept_intervals timestamp rpeak. b - a) = 0 then Inl Not_finite
          else Inr (60 / ((\<Sum>(a, b)\<leftarrow>kept_intervals timestamp rpeak. b - a)
                            / real (length (kept_intervals timestamp rpeak)))))
     \<and> (- 1 \<notin> set (map ((!) timestamp) (peak_indices rpeak)) \<longrightarrow>
          kept_intervals timestamp rpeak = consecutive (map ((!) timestamp) (peak_indices rpeak))
          \<and> length (kept_intervals timestamp rpeak) = length (peak_indices rpeak) - 1)"
proof (intro impI conjI)
  assume len: "length rpeak \<le> length timestamp"
  show "bpm_loop timestamp rpeak 0 0 (- 1) 0 =
       Inr (\<Sum>(a, b)\<leftarrow>kept_intervals timestamp rpeak. b - a,
            last (- 1 # map ((!) timestamp) (peak_indices rpeak)),
            real (length (kept_intervals timestamp rpeak)))"
    by (rule bpm_loop_kept [OF len])
  show "func_bpm timestamp rpeak =
         (if length (kept_intervals timestamp rpeak) < 2 then Inr 0
          else if (\<Sum>(a, b)\<leftarrow>kept_intervals timestamp rpeak. b - a) = 0 then Inl Not_finite
          else Inr (60 / ((\<Sum>(a, b)\<leftarrow>kept_intervals timestamp rpeak. b - a)
                            / real (length (kept_intervals timestamp rpeak)))))"
    by (rule func_bpm_value [OF len])
next
  assume "length rpeak \<le> length timestamp"
    and no: "- 1 \<notin> set (map ((!) timestamp) (peak_indices rpeak))"
  show k: "kept_intervals timestamp rpeak = consecutive (map ((!) timestamp) (peak_indices rpeak))"
    unfolding kept_intervals_def by (rule consecutive_no_sentinel [OF no])
  show "length (kept_intervals timestamp rpeak) = length (peak_indices rpeak) - 1"
    unfolding k by (simp add: length_consecutive)
qed

theorem func_bpm_sentinel_witness:
  "length [1, 1, 1, 1 :: int] \<le> length [- 1, 1, 2, 3 :: real]
   \<and> kept_intervals [- 1, 1, 2, 3] [1, 1, 1, 1] = [(1, 2), (2, 3)]
   \<and> func_bpm [- 1, 1, 2, 3] [1, 1, 1, 1] = Inr 60
   \<and> - 1 \<notin> set (map ((!) [0, 2, 3, 4 :: real]) (peak_indices [1, 1, 1, 1]))
   \<and> kept_intervals [0, 2, 3, 4] [1, 1, 1, 1] = [(0, 2), (2, 3), (3, 4)]
   \<and> func_bpm [0, 2, 3, 4] [1, 1, 1, 1] = Inr 45"
proof -
  have p: "peak_indices [1, 1, 1, 1] = [0, Suc 0, Suc (Suc 0), Suc (Suc (Suc 0))]"
    by (simp add: peak_indices_def upt_rec)
  have k1: "kept_intervals [- 1, 1, 2, 3] [1, 1, 1, 1] = [(1, 2), (2, 3)]"
    by (simp add: kept_intervals_def p consecutive_def)
  have k2: "kept_intervals [0, 2, 3, 4] [1, 1, 1, 1] = [(0, 2), (2, 3), (3, 4)]"
    by (simp add: kept_intervals_def p consecutive_def)
  have n2: "- 1 \<notin> set (map ((!) [0, 2, 3, 4 :: real]) (peak_indices [1, 1, 1, 1]))"
    by (simp add: p)
  have b1: "func_bpm [- 1, 1, 2, 3] [1, 1, 1, 1] = Inr 60"
    using func_bpm_sentinel [of "[1, 1, 1, 1]" "[- 1, 1, 2, 3]"] by (simp add: k1)
  have b2: "func_bpm [0, 2, 3, 4] [1, 1, 1, 1] = Inr 45"
    using func_bpm_sentinel [of "[1, 1, 1, 1]" "[0, 2, 3, 4]"] by (simp add: k2)
  show ?thesis
    using k1 k2 n2 b1 b2 by simp
qed

section \<open>The loops of the uniformity\<close>

lemma deflection_loop_count:
  "j \<le> i \<Longrightarrow> i < length datapoint \<Longrightarrow>
   deflection_loop datapoint baseline (int i) (int j) cnt =
     Inr (cnt + int (deflections datapoint baseline (j, i)))"
proof (induction "i - j" arbitrary: j cnt)
  case 0
  then show ?case
    by (subst deflection_loop.simps) (simp add: deflections_def)
next
  case (Suc n)
  then have lt: "j < i" by simp
  have a1: "vec_at datapoint (int j) = Inr (datapoint ! j)"
    using lt Suc.prems by (simp add: vec_at_def)
  have a2: "vec_at datapoint (int j + 1) = Inr (datapoint ! Suc j)"
    using lt Suc.prems by (simp add: vec_at_def nat_add_distrib)
  have ih: "\<And>c. deflection_loop datapoint baseline (int i) (int (Suc j)) c =
              Inr (c + int (deflections datapoint baseline (Suc j, i)))"
    using Suc.hyps(1) [of "Suc j"] Suc.hyps(2) lt Suc.prems by simp
  have d: "deflections datapoint baseline (j, i) =
             (if crosses baseline (datapoint ! j) (datapoint ! Suc j) then 1 else 0)
             + deflections datapoint baseline (Suc j, i)"
    using lt by (simp add: deflections_def upt_conv_Cons)
  have s: "int j + 1 = int (Suc j)" by simp
  show ?case
    using lt a1 a2
    by (subst deflection_loop.simps) (simp only: s ih d, simp add: crosses_def)
qed

lemma consecutive_Cons2: "consecutive (a # b # xs) = (a, b) # consecutive (b # xs)"
  by (simp add: consecutive_def)

lemma consecutive_single: "consecutive [a] = []"
  by (simp add: consecutive_def)

lemma uniformity_loop_counts:
  "length rpeak \<le> length datapoint \<Longrightarrow> - 1 \<le> prev_peak \<Longrightarrow> prev_peak < int i \<Longrightarrow>
   uniformity_loop datapoint rpeak baseline i counts prev_peak rpeak1 =
     Inr (counts @ map (\<lambda>w. int (deflections datapoint baseline w))
                     (windows_from prev_peak (peaks_from rpeak i)),
          (if peaks_from rpeak i = [] then prev_peak else int (last (peaks_from rpeak i))),
          rpeak1 + int (length (peaks_from rpeak i)))"
proof (induction datapoint rpeak baseline i counts prev_peak rpeak1 rule: uniformity_loop.induct)
  case (1 datapoint rpeak baseline i counts prev_peak rpeak1)
  show ?case
  proof (cases "i < length rpeak")
    case False
    then show ?thesis
      by (subst uniformity_loop.simps) (simp add: peaks_from_end windows_from_def consecutive_def)
  next
    case True
    note lt = True
    show ?thesis
    proof (cases "rpeak ! i = 1")
      case False
      have "uniformity_loop datapoint rpeak baseline (Suc i) counts prev_peak rpeak1 =
        Inr (counts @ map (\<lambda>w. int (deflections datapoint baseline w))
                     (windows_from prev_peak (peaks_from rpeak (Suc i))),
          (if peaks_from rpeak (Suc i) = [] then prev_peak else int (last (peaks_from rpeak (Suc i)))),
          rpeak1 + int (length (peaks_from rpeak (Suc i))))"
        using "1.IH"(3) [OF lt False] "1.prems" by simp
      then show ?thesis
        using lt False
        by (subst uniformity_loop.simps) (simp add: peaks_from_step)
    next
      case True
      note pk = True
      have ps: "peaks_from rpeak i = i # peaks_from rpeak (Suc i)"
        using lt pk by (simp add: peaks_from_step)
      show ?thesis
      proof (cases "prev_peak \<noteq> - 1")
        case False
        have "uniformity_loop datapoint rpeak baseline (Suc i) counts (int i) (rpeak1 + 1) =
          Inr (counts @ map (\<lambda>w. int (deflections datapoint baseline w))
                     (windows_from (int i) (peaks_from rpeak (Suc i))),
            (if peaks_from rpeak (Suc i) = [] then int i else int (last (peaks_from rpeak (Suc i)))),
            rpeak1 + 1 + int (length (peaks_from rpeak (Suc i))))"
          using "1.IH"(2) [OF lt pk False] "1.prems" by simp
        then show ?thesis
          using lt pk False
          by (subst uniformity_loop.simps) (simp add: ps windows_from_def)
      next
        case True
        have p0: "0 \<le> prev_peak" using True "1.prems" by simp
        have pi: "nat prev_peak \<le> i" "i < length datapoint"
          using "1.prems" lt p0 by simp_all
        have dl: "deflection_loop datapoint baseline (int i) prev_peak 0 =
                    Inr (int (deflections datapoint baseline (nat prev_peak, i)))"
          using deflection_loop_count [OF pi, of baseline 0] p0 by simp
        have "uniformity_loop datapoint rpeak baseline (Suc i)
                (counts @ [int (deflections datapoint baseline (nat prev_peak, i))]) (int i) (rpeak1 + 1) =
          Inr ((counts @ [int (deflections datapoint baseline (nat prev_peak, i))])
                 @ map (\<lambda>w. int (deflections datapoint baseline w))
                     (windows_from (int i) (peaks_from rpeak (Suc i))),
            (if peaks_from rpeak (Suc i) = [] then int i else int (last (peaks_from rpeak (Suc i)))),
            rpeak1 + 1 + int (length (peaks_from rpeak (Suc i))))"
          using "1.IH"(1) [OF lt pk True dl] "1.prems" by simp
        then show ?thesis
          using lt pk True dl
          by (subst uniformity_loop.simps) (simp add: ps windows_from_def consecutive_Cons2)
      qed
    qed
  qed
qed

lemma foldl_add_sum: "foldl (\<lambda>s x. s + f x) a xs = a + sum_list (map f xs)"
  for a :: real
  by (induction xs arbitrary: a) simp_all

lemma uniformity_loop_init:
  assumes "length rpeak \<le> length datapoint"
  shows "uniformity_loop datapoint rpeak baseline 0 [] (- 1) 0 =
     Inr (map int (deflection_counts datapoint rpeak baseline),
          (if peak_indices rpeak = [] then - 1 else int (last (peak_indices rpeak))),
          int (length (peak_indices rpeak)))"
  using uniformity_loop_counts [OF assms, of "- 1" 0 baseline "[]" 0]
  by (simp add: windows_from_def peaks_from_0 deflection_counts_def comp_def)

lemma length_deflection_counts:
  "length (deflection_counts datapoint rpeak baseline) = length (peak_indices rpeak) - 1"
  by (simp add: deflection_counts_def length_consecutive)

lemma func_uniformity_sd:
  assumes "length rpeak \<le> length datapoint"
  shows "func_uniformity datapoint rpeak baseline =
     Inr (if length (peak_indices rpeak) < 2 then 0
          else population_sd (map real (deflection_counts datapoint rpeak baseline)))"
proof (cases "length (peak_indices rpeak) < 2")
  case True
  then show ?thesis
    by (simp add: func_uniformity_def uniformity_loop_init [OF assms])
next
  case False
  then have ne: "real (length (deflection_counts datapoint rpeak baseline)) \<noteq> 0"
    by (simp add: length_deflection_counts)
  have m: "map real_of_int (map int cs) = map real cs" for cs
    by (simp add: comp_def)
  show ?thesis
    using False ne
    by (simp add: func_uniformity_def uniformity_loop_init [OF assms] double_div_def Let_def
          foldl_add_sum population_sd_def power2_eq_square comp_def)
qed

lemma population_sd_const:
  assumes "\<forall>x \<in> set xs. x = k"
  shows "population_sd xs = 0"
proof (cases "xs = []")
  case True
  then show ?thesis by (simp add: population_sd_def)
next
  case False
  have r: "xs = replicate (length xs) k"
    using assms by (simp add: replicate_length_same)
  have "sum_list xs = real (length xs) * k"
    by (subst r) (simp add: sum_list_replicate)
  then have mean: "sum_list xs / real (length xs) = k"
    using False by simp
  have "(\<Sum>x\<leftarrow>xs. (x - k)\<^sup>2) = (\<Sum>x\<leftarrow>xs. 0)"
    by (rule arg_cong [where f = sum_list], rule map_cong) (use assms in auto)
  then show ?thesis
    by (simp add: population_sd_def mean)
qed

section \<open>The uniformity\<close>

text \<open>
  C4. On amplitudes and flags of the same length \<^verbatim>\<open>func_uniformity\<close> returns 0 when fewer
  than two samples are flagged, and otherwise the population standard deviation of the
  deflection counts, one count for each pair of consecutive flagged indices. So when
  every window has the same count \<open>k\<close> the result is 0.
\<close>

theorem func_uniformity_population_sd:
  "length datapoint = length rpeak \<longrightarrow>
     func_uniformity datapoint rpeak baseline =
       Inr (if length (peak_indices rpeak) < 2 then 0
            else population_sd (map real (deflection_counts datapoint rpeak baseline)))
     \<and> ((\<forall>c \<in> set (deflection_counts datapoint rpeak baseline). c = k) \<longrightarrow>
          func_uniformity datapoint rpeak baseline = Inr 0)"
proof (intro impI conjI)
  assume len: "length datapoint = length rpeak"
  then have le: "length rpeak \<le> length datapoint" by simp
  show "func_uniformity datapoint rpeak baseline =
       Inr (if length (peak_indices rpeak) < 2 then 0
            else population_sd (map real (deflection_counts datapoint rpeak baseline)))"
    by (rule func_uniformity_sd [OF le])
next
  assume len: "length datapoint = length rpeak"
    and c: "\<forall>c \<in> set (deflection_counts datapoint rpeak baseline). c = k"
  then have le: "length rpeak \<le> length datapoint" by simp
  have "\<forall>x \<in> set (map real (deflection_counts datapoint rpeak baseline)). x = real k"
    using c by simp
  then have "population_sd (map real (deflection_counts datapoint rpeak baseline)) = 0"
    by (rule population_sd_const)
  then show "func_uniformity datapoint rpeak baseline = Inr 0"
    by (simp add: func_uniformity_sd [OF le])
qed

theorem func_uniformity_population_sd_witness:
  "length [4, 0, 0 :: real] = length [1, 1, 1 :: int]
   \<and> deflection_counts [4, 0, 0] [1, 1, 1] 0 = [1, 0]
   \<and> func_uniformity [4, 0, 0] [1, 1, 1] 0 = Inr (population_sd [1, 0])
   \<and> population_sd [1, 0] = 1 / 2
   \<and> length [0, 2, 0, 2, 0 :: real] = length [1, 0, 1, 0, 1 :: int]
   \<and> deflection_counts [0, 2, 0, 2, 0] [1, 0, 1, 0, 1] 1 = [2, 2]
   \<and> func_uniformity [0, 2, 0, 2, 0] [1, 0, 1, 0, 1] 1 = Inr 0"
proof -
  have p1: "peak_indices [1, 1, 1] = [0, Suc 0, Suc (Suc 0)]"
    by (simp add: peak_indices_def upt_rec)
  have p2: "peak_indices [1, 0, 1, 0, 1] = [0, Suc (Suc 0), Suc (Suc (Suc (Suc 0)))]"
    by (simp add: peak_indices_def upt_rec)
  have c1: "deflection_counts [4, 0, 0] [1, 1, 1] 0 = [1, 0]"
    by (simp add: deflection_counts_def p1 consecutive_def deflections_def crosses_def upt_rec)
  have c2: "deflection_counts [0, 2, 0, 2, 0] [1, 0, 1, 0, 1] 1 = [2, 2]"
    by (simp add: deflection_counts_def p2 consecutive_def deflections_def crosses_def upt_rec)
  have sd: "population_sd [1, 0] = 1 / 2"
    by (simp add: population_sd_def power2_eq_square real_sqrt_divide)
  have u1: "func_uniformity [4, 0, 0] [1, 1, 1] 0 = Inr (population_sd [1, 0])"
    using func_uniformity_population_sd [of "[4, 0, 0]" "[1, 1, 1]" 0] by (simp add: c1 p1)
  have l2: "length [0, 2, 0, 2, 0 :: real] = length [1, 0, 1, 0, 1 :: int]"
    by simp
  have a2: "\<forall>c \<in> set (deflection_counts [0, 2, 0, 2, 0] [1, 0, 1, 0, 1] 1). c = 2"
    by (simp add: c2)
  have u2: "func_uniformity [0, 2, 0, 2, 0] [1, 0, 1, 0, 1] 1 = Inr 0"
    using func_uniformity_population_sd [of "[0, 2, 0, 2, 0]" "[1, 0, 1, 0, 1]" 1 2] l2 a2 by blast
  show ?thesis
    using c1 c2 sd u1 u2 by simp
qed

section \<open>The loader\<close>

lemma load_loop_shape:
  assumes "load_loop get_double get_int f timestamp datapoint rpeak = Some res"
  shows "length timestamp = length datapoint \<and> length rpeak = length datapoint \<longrightarrow>
     length (fst res) = length (fst (snd res))
     \<and> (length (snd (snd res)) = length (fst (snd res))
          \<or> Suc (length (snd (snd res))) = length (fst (snd res)))"
  by (rule load_loop.raw_induct
        [where P = "\<lambda>gd gi f ts ds rs res. length ts = length ds \<and> length rs = length ds \<longrightarrow>
           length (fst res) = length (fst (snd res))
           \<and> (length (snd (snd res)) = length (fst (snd res))
               \<or> Suc (length (snd (snd res))) = length (fst (snd res)))", OF _ assms])
     (auto split: option.splits prod.splits)

lemma load_loop_returns:
  assumes gd: "\<And>s x s'. get_double s = Some (x, s') \<Longrightarrow> m s' < (m s :: nat)"
    and gi: "\<And>s z s'. get_int s = Some (z, s') \<Longrightarrow> m s' < m s"
  shows "\<exists>res. load_loop get_double get_int f timestamp datapoint rpeak = Some res"
proof (induction "m f" arbitrary: f timestamp datapoint rpeak rule: less_induct)
  case less
  show ?case
  proof (cases "get_double f")
    case None
    then show ?thesis by (subst load_loop.simps) simp
  next
    case (Some a)
    obtain x f1 where a: "get_double f = Some (x, f1)" using Some by (cases a) simp
    show ?thesis
    proof (cases "get_double f1")
      case None
      then show ?thesis using a by (subst load_loop.simps) simp
    next
      case (Some b)
      obtain y f2 where b: "get_double f1 = Some (y, f2)" using Some by (cases b) simp
      show ?thesis
      proof (cases "get_int f2")
        case None
        then show ?thesis using a b by (subst load_loop.simps) simp
      next
        case (Some c)
        obtain z f3 where c: "get_int f2 = Some (z, f3)" using Some by (cases c) simp
        have "m f3 < m f"
          using gd [OF a] gd [OF b] gi [OF c] by simp
        from less [OF this] show ?thesis
          using a b c by (subst load_loop.simps) simp
      qed
    qed
  qed
qed

lemma get_double_fields_shorter: "get_double_fields s = Some (x, s') \<Longrightarrow> length s' < length s"
  by (induction s rule: get_double_fields.induct) auto

lemma get_int_fields_shorter: "get_int_fields s = Some (z, s') \<Longrightarrow> length s' < length s"
  by (induction s rule: get_int_fields.induct) (auto split: if_splits)

lemma load_loop_records:
  assumes "load_loop get_double get_int f timestamp datapoint rpeak = Some res"
  shows "\<exists>n recs f'. read_records get_double get_int n f = Some (recs, f') \<and> length recs = n
           \<and> (case stop_at get_double get_int f' of
                 None \<Rightarrow> False
               | Some No_record \<Rightarrow>
                   res = (timestamp @ map fst recs, datapoint @ map (\<lambda>r. fst (snd r)) recs,
                          rpeak @ map (\<lambda>r. snd (snd r)) recs)
               | Some (No_flag x y) \<Rightarrow>
                   res = (timestamp @ map fst recs @ [x], datapoint @ map (\<lambda>r. fst (snd r)) recs @ [y],
                          rpeak @ map (\<lambda>r. snd (snd r)) recs))"
proof (rule load_loop.raw_induct
        [where P = "\<lambda>gd gi f ts ds rs res.
           \<exists>n recs f'. read_records gd gi n f = Some (recs, f') \<and> length recs = n
           \<and> (case stop_at gd gi f' of
                 None \<Rightarrow> False
               | Some No_record \<Rightarrow>
                   res = (ts @ map fst recs, ds @ map (\<lambda>r. fst (snd r)) recs,
                          rs @ map (\<lambda>r. snd (snd r)) recs)
               | Some (No_flag x y) \<Rightarrow>
                   res = (ts @ map fst recs @ [x], ds @ map (\<lambda>r. fst (snd r)) recs @ [y],
                          rs @ map (\<lambda>r. snd (snd r)) recs))", OF _ assms])
  fix load_loop' :: "('a \<Rightarrow> (real \<times> 'a) option) \<Rightarrow> ('a \<Rightarrow> (int \<times> 'a) option) \<Rightarrow> 'a \<Rightarrow>
      real list \<Rightarrow> real list \<Rightarrow> int list \<Rightarrow> (real list \<times> real list \<times> int list) option"
    and gd gi f ts ds rs res
  let ?P = "\<lambda>gd gi f ts ds rs res.
           \<exists>n recs f'. read_records gd gi n f = Some (recs, f') \<and> length recs = n
           \<and> (case stop_at gd gi f' of
                 None \<Rightarrow> False
               | Some No_record \<Rightarrow>
                   res = (ts @ map fst recs, ds @ map (\<lambda>r. fst (snd r)) recs,
                          rs @ map (\<lambda>r. snd (snd r)) recs)
               | Some (No_flag x y) \<Rightarrow>
                   res = (ts @ map fst recs @ [x], ds @ map (\<lambda>r. fst (snd r)) recs @ [y],
                          rs @ map (\<lambda>r. snd (snd r)) recs))"
  assume ih: "\<And>gi f ts ds rs b y. load_loop' gi f ts ds rs b = Some y \<Longrightarrow> ?P gi f ts ds rs b y"
    and body: "(case gd f of None \<Rightarrow> Some (ts, ds, rs)
      | Some (x, file1) \<Rightarrow>
          case gd file1 of None \<Rightarrow> Some (ts, ds, rs)
          | Some (y, file2) \<Rightarrow>
              case gi file2 of
              None \<Rightarrow> Some (ts @ [x], ds @ [y], rs)
              | Some (z, file3) \<Rightarrow>
                  load_loop' gd gi file3 (ts @ [x]) (ds @ [y]) (rs @ [z])) = Some res"
  show "?P gd gi f ts ds rs res"
  proof (cases "gd f")
    case None
    then have "read_records gd gi 0 f = Some ([], f)" "stop_at gd gi f = Some No_record"
      "res = (ts, ds, rs)"
      using body by (simp_all add: stop_at_def)
    then show ?thesis
      by (intro exI [of _ 0] exI [of _ "[]"] exI [of _ f]) simp
  next
    case (Some a)
    obtain x f1 where a: "gd f = Some (x, f1)" using Some by (cases a) simp
    show ?thesis
    proof (cases "gd f1")
      case None
      then have "read_records gd gi 0 f = Some ([], f)" "stop_at gd gi f = Some No_record"
        "res = (ts, ds, rs)"
        using body a by (simp_all add: stop_at_def)
      then show ?thesis
        by (intro exI [of _ 0] exI [of _ "[]"] exI [of _ f]) simp
    next
      case (Some b)
      obtain y f2 where b: "gd f1 = Some (y, f2)" using Some by (cases b) simp
      show ?thesis
      proof (cases "gi f2")
        case None
        then have "read_records gd gi 0 f = Some ([], f)" "stop_at gd gi f = Some (No_flag x y)"
          "res = (ts @ [x], ds @ [y], rs)"
          using body a b by (simp_all add: stop_at_def)
        then show ?thesis
          by (intro exI [of _ 0] exI [of _ "[]"] exI [of _ f]) simp
      next
        case (Some c)
        obtain z f3 where c: "gi f2 = Some (z, f3)" using Some by (cases c) simp
        have "load_loop' gd gi f3 (ts @ [x]) (ds @ [y]) (rs @ [z]) = Some res"
          using body a b c by simp
        from ih [OF this] obtain n recs f' where
          r: "read_records gd gi n f3 = Some (recs, f')" and n: "length recs = n"
          and s: "(case stop_at gd gi f' of
                 None \<Rightarrow> False
               | Some No_record \<Rightarrow>
                   res = ((ts @ [x]) @ map fst recs, (ds @ [y]) @ map (\<lambda>r. fst (snd r)) recs,
                          (rs @ [z]) @ map (\<lambda>r. snd (snd r)) recs)
               | Some (No_flag x' y') \<Rightarrow>
                   res = ((ts @ [x]) @ map fst recs @ [x'], (ds @ [y]) @ map (\<lambda>r. fst (snd r)) recs @ [y'],
                          (rs @ [z]) @ map (\<lambda>r. snd (snd r)) recs))"
          by blast
        have r': "read_records gd gi (Suc n) f = Some ((x, y, z) # recs, f')"
          using a b c r by simp
        show ?thesis
          by (intro exI [of _ "Suc n"] exI [of _ "(x, y, z) # recs"] exI [of _ f'])
             (use r' n s in \<open>auto split: option.splits stop.splits\<close>)
      qed
    qed
  qed
qed

lemma load_loop_of_records:
  "read_records get_double get_int n f = Some (recs, f') \<Longrightarrow>
   stop_at get_double get_int f' = Some st \<Longrightarrow>
   load_loop get_double get_int f timestamp datapoint rpeak =
     Some (case st of
             No_record \<Rightarrow>
               (timestamp @ map fst recs, datapoint @ map (\<lambda>r. fst (snd r)) recs,
                rpeak @ map (\<lambda>r. snd (snd r)) recs)
           | No_flag x y \<Rightarrow>
               (timestamp @ map fst recs @ [x], datapoint @ map (\<lambda>r. fst (snd r)) recs @ [y],
                rpeak @ map (\<lambda>r. snd (snd r)) recs))"
proof (induction n arbitrary: f recs timestamp datapoint rpeak)
  case 0
  then have "recs = []" "f' = f" by simp_all
  then show ?case
    using "0.prems"(2)
    by (subst load_loop.simps) (auto simp: stop_at_def split: option.splits stop.splits)
next
  case (Suc n)
  from Suc.prems(1) obtain x f1 y f2 z f3 recs' where
    a: "get_double f = Some (x, f1)" and b: "get_double f1 = Some (y, f2)"
    and c: "get_int f2 = Some (z, f3)"
    and r: "read_records get_double get_int n f3 = Some (recs', f')"
    and e: "recs = (x, y, z) # recs'"
    by (auto split: option.splits)
  show ?case
    using a b c e Suc.IH [OF r Suc.prems(2), of "timestamp @ [x]" "datapoint @ [y]" "rpeak @ [z]"]
    by (subst load_loop.simps) (simp split: stop.splits)
qed

text \<open>
  C3. When the loader returns, the timestamps and the amplitudes have the same length and
  the flags have that length or one element less; the three lengths need not be equal.
  What is returned is told by the stream: the flags are those of the complete records
  read, one after the other, up to the first place where no complete record follows. When
  the loop stops there at a timestamp or an amplitude that is missing or does not parse
  (the end of the file is such a place), the timestamps and amplitudes are those of the
  complete records too, and the three lengths are equal. When it stops at a flag that is
  missing or does not parse, the timestamp and the amplitude read just before are kept, and
  the flags are one fewer. Conversely, a stream that gives \<open>k\<close> complete records and then
  such a stop makes the loader return exactly that. The loader returns on every stream
  whose extractions consume input: \<open>m\<close> measures what is left of the stream.
\<close>

theorem loader_lengths:
  "(load_loop get_double get_int f [] [] [] = Some (timestamp, datapoint, rpeak) \<longrightarrow>
      length timestamp = length datapoint
      \<and> (length rpeak = length datapoint \<or> Suc (length rpeak) = length datapoint)
      \<and> (\<exists>n recs f'.
            read_records get_double get_int n f = Some (recs, f')
            \<and> rpeak = map (\<lambda>r. snd (snd r)) recs
            \<and> ((stop_at get_double get_int f' = Some No_record
                  \<and> timestamp = map fst recs \<and> datapoint = map (\<lambda>r. fst (snd r)) recs
                  \<and> length rpeak = length datapoint)
                 \<or> (\<exists>x y. stop_at get_double get_int f' = Some (No_flag x y)
                       \<and> timestamp = map fst recs @ [x]
                       \<and> datapoint = map (\<lambda>r. fst (snd r)) recs @ [y]
                       \<and> Suc (length rpeak) = length datapoint))))
   \<and> (read_records get_double get_int k f = Some (rows, g)
        \<and> stop_at get_double get_int g = Some No_record \<longrightarrow>
        load_loop get_double get_int f [] [] [] =
          Some (map fst rows, map (\<lambda>r. fst (snd r)) rows, map (\<lambda>r. snd (snd r)) rows))
   \<and> (read_records get_double get_int k f = Some (rows, g)
        \<and> stop_at get_double get_int g = Some (No_flag u v) \<longrightarrow>
        load_loop get_double get_int f [] [] [] =
          Some (map fst rows @ [u], map (\<lambda>r. fst (snd r)) rows @ [v], map (\<lambda>r. snd (snd r)) rows))
   \<and> ((\<forall>s x s'. get_double s = Some (x, s') \<longrightarrow> m s' < (m s :: nat))
        \<and> (\<forall>s z s'. get_int s = Some (z, s') \<longrightarrow> m s' < m s)
      \<longrightarrow> (\<exists>res. load_loop get_double get_int f [] [] [] = Some res))"
proof (intro conjI impI)
  assume l: "load_loop get_double get_int f [] [] [] = Some (timestamp, datapoint, rpeak)"
  from load_loop_shape [OF l]
  show "length timestamp = length datapoint" 
    and "length rpeak = length datapoint \<or> Suc (length rpeak) = length datapoint"
    by simp_all
  from load_loop_records [OF l] obtain n recs f' where
    r: "read_records get_double get_int n f = Some (recs, f')"
    and s: "(case stop_at get_double get_int f' of
                 None \<Rightarrow> False
               | Some No_record \<Rightarrow>
                   (timestamp, datapoint, rpeak) =
                     ([] @ map fst recs, [] @ map (\<lambda>r. fst (snd r)) recs,
                      [] @ map (\<lambda>r. snd (snd r)) recs)
               | Some (No_flag x y) \<Rightarrow>
                   (timestamp, datapoint, rpeak) =
                     ([] @ map fst recs @ [x], [] @ map (\<lambda>r. fst (snd r)) recs @ [y],
                      [] @ map (\<lambda>r. snd (snd r)) recs))"
    by blast
  show "\<exists>n recs f'.
            read_records get_double get_int n f = Some (recs, f')
            \<and> rpeak = map (\<lambda>r. snd (snd r)) recs
            \<and> ((stop_at get_double get_int f' = Some No_record
                  \<and> timestamp = map fst recs \<and> datapoint = map (\<lambda>r. fst (snd r)) recs
                  \<and> length rpeak = length datapoint)
                 \<or> (\<exists>x y. stop_at get_double get_int f' = Some (No_flag x y)
                       \<and> timestamp = map fst recs @ [x]
                       \<and> datapoint = map (\<lambda>r. fst (snd r)) recs @ [y]
                       \<and> Suc (length rpeak) = length datapoint))"
    by (intro exI [of _ n] exI [of _ recs] exI [of _ f'])
       (use r s in \<open>auto split: option.splits stop.splits\<close>)
next
  assume "read_records get_double get_int k f = Some (rows, g)
        \<and> stop_at get_double get_int g = Some No_record"
  then show "load_loop get_double get_int f [] [] [] =
          Some (map fst rows, map (\<lambda>r. fst (snd r)) rows, map (\<lambda>r. snd (snd r)) rows)"
    using load_loop_of_records [of get_double get_int k f rows g No_record "[]" "[]" "[]"] by simp
next
  assume "read_records get_double get_int k f = Some (rows, g)
        \<and> stop_at get_double get_int g = Some (No_flag u v)"
  then show "load_loop get_double get_int f [] [] [] =
          Some (map fst rows @ [u], map (\<lambda>r. fst (snd r)) rows @ [v], map (\<lambda>r. snd (snd r)) rows)"
    using load_loop_of_records [of get_double get_int k f rows g "No_flag u v" "[]" "[]" "[]"] by simp
next
  assume "(\<forall>s x s'. get_double s = Some (x, s') \<longrightarrow> m s' < m s)
        \<and> (\<forall>s z s'. get_int s = Some (z, s') \<longrightarrow> m s' < m s)"
  then show "\<exists>res. load_loop get_double get_int f [] [] [] = Some res"
    by (intro load_loop_returns [of get_double m get_int]) blast+
qed

theorem loader_lengths_witness:
  "read_records get_double_fields get_int_fields 1
     [Int_field 0, Real_field 0.5, Int_field 1, Int_field 1, Int_field 2, Bad_field]
     = Some ([(0, 0.5, 1)], [Int_field 1, Int_field 2, Bad_field])
   \<and> stop_at get_double_fields get_int_fields [Int_field 1, Int_field 2, Bad_field] = Some (No_flag 1 2)
   \<and> load_loop get_double_fields get_int_fields
       [Int_field 0, Real_field 0.5, Int_field 1, Int_field 1, Int_field 2, Bad_field] [] [] []
       = Some ([0, 1], [0.5, 2], [1])
   \<and> read_records get_double_fields get_int_fields 1 [Int_field 0, Real_field 0.5, Int_field 1]
       = Some ([(0, 0.5, 1)], [])
   \<and> stop_at get_double_fields get_int_fields [] = Some No_record
   \<and> load_loop get_double_fields get_int_fields [Int_field 0, Real_field 0.5, Int_field 1] [] [] []
       = Some ([0], [0.5], [1])
   \<and> (\<exists>res. load_loop get_double_fields get_int_fields [Int_field 0, Bad_field] [] [] [] = Some res)"
proof -
  have r1: "read_records get_double_fields get_int_fields (Suc 0)
     [Int_field 0, Real_field 0.5, Int_field 1, Int_field 1, Int_field 2, Bad_field]
     = Some ([(0, 0.5, 1)], [Int_field 1, Int_field 2, Bad_field])"
    by simp
  have s1: "stop_at get_double_fields get_int_fields [Int_field 1, Int_field 2, Bad_field]
      = Some (No_flag 1 2)"
    by (simp add: stop_at_def)
  have r2: "read_records get_double_fields get_int_fields (Suc 0)
      [Int_field 0, Real_field 0.5, Int_field 1] = Some ([(0, 0.5, 1)], [])"
    by simp
  have s2: "stop_at get_double_fields get_int_fields [] = Some No_record"
    by (simp add: stop_at_def)
  note t1 = loader_lengths [of get_double_fields get_int_fields
      "[Int_field 0, Real_field 0.5, Int_field 1, Int_field 1, Int_field 2, Bad_field]"
      _ _ _ "Suc 0" "[(0, 0.5, 1)]" "[Int_field 1, Int_field 2, Bad_field]" 1 2 length]
  note t2 = loader_lengths [of get_double_fields get_int_fields
      "[Int_field 0, Real_field 0.5, Int_field 1]" _ _ _ "Suc 0" "[(0, 0.5, 1)]" "[]" _ _ length]
  note t3 = loader_lengths [of get_double_fields get_int_fields "[Int_field 0, Bad_field]"
      _ _ _ _ _ _ _ _ length]
  have l1: "load_loop get_double_fields get_int_fields
       [Int_field 0, Real_field 0.5, Int_field 1, Int_field 1, Int_field 2, Bad_field] [] [] []
       = Some ([0, 1], [0.5, 2], [1])"
    using t1 [THEN conjunct2, THEN conjunct2, THEN conjunct1, THEN mp, OF conjI [OF r1 s1]] by simp
  have l2: "load_loop get_double_fields get_int_fields [Int_field 0, Real_field 0.5, Int_field 1] [] [] []
       = Some ([0], [0.5], [1])"
    using t2 [THEN conjunct2, THEN conjunct1, THEN mp, OF conjI [OF r2 s2]] by simp
  have d: "\<forall>s x s'. get_double_fields s = Some (x, s') \<longrightarrow> length s' < length s"
    using get_double_fields_shorter by blast
  have i: "\<forall>s z s'. get_int_fields s = Some (z, s') \<longrightarrow> length s' < length s"
    using get_int_fields_shorter by blast
  have l3: "\<exists>res. load_loop get_double_fields get_int_fields [Int_field 0, Bad_field] [] [] [] = Some res"
    using t3 [THEN conjunct2, THEN conjunct2, THEN conjunct2, THEN mp, OF conjI [OF d i]] .
  show ?thesis
    using r1 s1 l1 r2 s2 l2 l3 by simp
qed

theorem loader_lengths_differ:
  "load_loop get_double_fields get_int_fields [Int_field 0, Int_field 1] [] [] [] = Some ([0], [1], [])
   \<and> length [1 :: real] \<noteq> length ([] :: int list)"
  by (simp add: load_loop.simps)

section \<open>The baseline is the median\<close>

lemma func_baseline_sort:
  assumes "datapoint \<noteq> []"
  shows "func_baseline datapoint = Inr (median_sorted (sort datapoint))"
proof -
  let ?n = "length datapoint"
  have pos: "0 < ?n" using assms by simp
  show ?thesis
  proof (cases "odd ?n")
    case True
    then have "?n mod 2 = 1" by (simp add: odd_iff_mod_2_eq_one)
    then show ?thesis
      using True pos by (simp add: func_baseline_def median_sorted_def vec_at_def)
  next
    case False
    then have m: "?n mod 2 \<noteq> 1" by (simp add: odd_iff_mod_2_eq_one)
    have h: "1 \<le> ?n div 2" using False pos by presburger
    then have i: "int (?n div 2) - 1 = int (?n div 2 - 1)" by simp
    have a: "vec_at (sort datapoint) (int (?n div 2) - 1) = Inr (sort datapoint ! (?n div 2 - 1))"
      unfolding i using pos by (simp add: vec_at_def less_imp_diff_less)
    have b: "vec_at (sort datapoint) (int (?n div 2)) = Inr (sort datapoint ! (?n div 2))"
      using pos by (simp add: vec_at_def)
    show ?thesis
      using False m a b by (simp add: func_baseline_def median_sorted_def Let_def)
  qed
qed

lemma count_le_sorted:
  assumes "sorted ys" "k < length ys" "ys ! k \<le> m"
  shows "Suc k \<le> length (filter (\<lambda>x. x \<le> m) ys)"
proof -
  have "\<forall>x \<in> set (take (Suc k) ys). x \<le> m"
  proof
    fix x assume "x \<in> set (take (Suc k) ys)"
    then obtain i where "i < Suc k" "i < length ys" "x = ys ! i"
      by (auto simp: in_set_conv_nth)
    then have "x \<le> ys ! k"
      using assms(1,2) by (simp add: sorted_nth_mono)
    then show "x \<le> m" using assms(3) by simp
  qed
  then have "filter (\<lambda>x. x \<le> m) (take (Suc k) ys) = take (Suc k) ys"
    by (simp add: filter_id_conv)
  moreover have "filter (\<lambda>x. x \<le> m) ys =
      filter (\<lambda>x. x \<le> m) (take (Suc k) ys) @ filter (\<lambda>x. x \<le> m) (drop (Suc k) ys)"
    by (metis append_take_drop_id filter_append)
  ultimately show ?thesis
    using assms(2) by simp
qed

lemma count_ge_sorted:
  assumes "sorted ys" "k < length ys" "m \<le> ys ! k"
  shows "length ys - k \<le> length (filter (\<lambda>x. m \<le> x) ys)"
proof -
  have "\<forall>x \<in> set (drop k ys). m \<le> x"
  proof
    fix x assume "x \<in> set (drop k ys)"
    then obtain i where "i < length ys - k" "x = ys ! (k + i)"
      by (auto simp: in_set_conv_nth)
    then have "ys ! k \<le> x"
      using assms(1,2) by (simp add: sorted_nth_mono)
    then show "m \<le> x" using assms(3) by simp
  qed
  then have "filter (\<lambda>x. m \<le> x) (drop k ys) = drop k ys"
    by (simp add: filter_id_conv)
  moreover have "filter (\<lambda>x. m \<le> x) ys =
      filter (\<lambda>x. m \<le> x) (take k ys) @ filter (\<lambda>x. m \<le> x) (drop k ys)"
    by (metis append_take_drop_id filter_append)
  ultimately show ?thesis
    by simp
qed

lemma is_median_sorted:
  assumes "sorted ys" "ys \<noteq> []"
  shows "is_median (median_sorted ys) ys"
proof -
  let ?n = "length ys"
  have pos: "0 < ?n" using assms(2) by simp
  show ?thesis
  proof (cases "odd ?n")
    case True
    then obtain k where n: "?n = 2 * k + 1" by (auto elim: oddE)
    then have k: "?n div 2 = k" by simp
    have m: "median_sorted ys = ys ! k" using True k by (simp add: median_sorted_def)
    have kn: "k < ?n" using n by simp
    have a: "Suc k \<le> length (filter (\<lambda>x. x \<le> ys ! k) ys)"
      by (rule count_le_sorted [OF assms(1) kn]) simp
    have b: "?n - k \<le> length (filter (\<lambda>x. ys ! k \<le> x) ys)"
      by (rule count_ge_sorted [OF assms(1) kn]) simp
    have "?n \<le> 2 * length (filter (\<lambda>x. x \<le> ys ! k) ys)"
      using a n by linarith
    moreover have "?n \<le> 2 * length (filter (\<lambda>x. ys ! k \<le> x) ys)"
      using b n by linarith
    ultimately show ?thesis
      unfolding is_median_def m by blast
  next
    case False
    then obtain k where n: "?n = 2 * k" by (auto elim: evenE)
    then have k: "?n div 2 = k" and k1: "1 \<le> k" using pos by simp_all
    let ?m = "(ys ! (k - 1) + ys ! k) / 2"
    have m: "median_sorted ys = ?m" using False k by (simp add: median_sorted_def)
    have kn: "k < ?n" "k - 1 < ?n" using n k1 by simp_all
    have le: "ys ! (k - 1) \<le> ys ! k"
      using assms(1) kn by (simp add: sorted_nth_mono)
    have lo: "ys ! (k - 1) \<le> ?m" and hi: "?m \<le> ys ! k"
      using le by simp_all
    have a: "Suc (k - 1) \<le> length (filter (\<lambda>x. x \<le> ?m) ys)"
      by (rule count_le_sorted [OF assms(1) kn(2) lo])
    have b: "?n - k \<le> length (filter (\<lambda>x. ?m \<le> x) ys)"
      by (rule count_ge_sorted [OF assms(1) kn(1) hi])
    have "?n \<le> 2 * length (filter (\<lambda>x. x \<le> ?m) ys)"
      using a n k1 by linarith
    moreover have "?n \<le> 2 * length (filter (\<lambda>x. ?m \<le> x) ys)"
      using b n by linarith
    ultimately show ?thesis
      unfolding is_median_def m by blast
  qed
qed

lemma is_median_mset:
  "mset xs = mset ys \<Longrightarrow> is_median m xs = is_median m ys"
proof -
  assume e: "mset xs = mset ys"
  have f: "length (filter P xs) = length (filter P ys)" for P :: "real \<Rightarrow> bool"
    using e by (metis mset_filter size_mset)
  have "length xs = length ys" using e by (metis size_mset)
  then show ?thesis by (simp add: is_median_def f)
qed

text \<open>
  C5. On a non-empty amplitude sequence \<^verbatim>\<open>func_baseline\<close> returns the median: whatever
  ascending arrangement \<open>ys\<close> of the amplitudes is taken, the result is its middle element
  for an odd length and the average of its two middle elements for an even one; at least
  half of the amplitudes are at most the result and at least half are at least it. The
  result is the same for every reordering of the input, and for a single amplitude it is
  that amplitude.
\<close>

theorem func_baseline_median:
  "datapoint \<noteq> [] \<longrightarrow>
     (\<forall>ys. sorted ys \<and> mset ys = mset datapoint \<longrightarrow>
        func_baseline datapoint = Inr (median_sorted ys))
     \<and> (\<exists>m. func_baseline datapoint = Inr m \<and> is_median m datapoint)
     \<and> (\<forall>zs. mset zs = mset datapoint \<longrightarrow> func_baseline zs = func_baseline datapoint)
     \<and> func_baseline [x] = Inr x"
proof (intro impI conjI allI)
  fix ys
  assume ne: "datapoint \<noteq> []" and ys: "sorted ys \<and> mset ys = mset datapoint"
  then have "sort datapoint = ys"
    by (intro properties_for_sort) simp_all
  then show "func_baseline datapoint = Inr (median_sorted ys)"
    using func_baseline_sort [OF ne] by simp
next
  assume ne: "datapoint \<noteq> []"
  have "is_median (median_sorted (sort datapoint)) (sort datapoint)"
  proof (rule is_median_sorted)
    show "sorted (sort datapoint)" by simp
    show "sort datapoint \<noteq> []" using ne by (metis length_0_conv length_sort)
  qed
  then have "is_median (median_sorted (sort datapoint)) datapoint"
    using is_median_mset [of "sort datapoint" datapoint] by simp
  then show "\<exists>m. func_baseline datapoint = Inr m \<and> is_median m datapoint"
    using func_baseline_sort [OF ne] by blast
next
  fix zs
  assume ne: "datapoint \<noteq> []" and zs: "mset zs = mset datapoint"
  then have ne': "zs \<noteq> []" by auto
  have "sort zs = sort datapoint"
    by (intro properties_for_sort) (simp_all add: zs)
  then show "func_baseline zs = func_baseline datapoint"
    using func_baseline_sort [OF ne] func_baseline_sort [OF ne'] by simp
next
  show "func_baseline [x] = Inr x"
    by (simp add: func_baseline_def vec_at_def)
qed

theorem func_baseline_median_witness:
  "[3, 1, 2 :: real] \<noteq> [] \<and> sorted [1, 2, 3 :: real] \<and> mset [1, 2, 3 :: real] = mset [3, 1, 2]
   \<and> func_baseline [3, 1, 2] = Inr 2
   \<and> mset [2, 3, 1 :: real] = mset [3, 1, 2]
   \<and> func_baseline [2, 3, 1] = func_baseline [3, 1, 2]
   \<and> sorted [1, 2, 3, 4 :: real] \<and> mset [1, 2, 3, 4 :: real] = mset [4, 1, 3, 2]
   \<and> func_baseline [4, 1, 3, 2] = Inr (5 / 2)"
proof -
  have n1: "[3, 1, 2 :: real] \<noteq> []" and n3: "[4, 1, 3, 2 :: real] \<noteq> []"
    by simp_all
  have s1: "sorted [1, 2, 3 :: real] \<and> mset [1, 2, 3 :: real] = mset [3, 1, 2]"
    by simp
  have s2: "mset [2, 3, 1 :: real] = mset [3, 1, 2]"
    by simp
  have s3: "sorted [1, 2, 3, 4 :: real] \<and> mset [1, 2, 3, 4 :: real] = mset [4, 1, 3, 2]"
    by simp
  have m1: "median_sorted [1, 2, 3] = 2" and m2: "median_sorted [1, 2, 3, 4] = 5 / 2"
    by (simp_all add: median_sorted_def)
  note t1 = func_baseline_median [of "[3, 1, 2]", THEN mp, OF n1]
  note t3 = func_baseline_median [of "[4, 1, 3, 2]", THEN mp, OF n3]
  have b1: "func_baseline [3, 1, 2] = Inr 2"
    using t1 [THEN conjunct1, THEN spec, of "[1, 2, 3]", THEN mp, OF s1] unfolding m1 .
  have b2: "func_baseline [2, 3, 1] = func_baseline [3, 1, 2]"
    using t1 [THEN conjunct2, THEN conjunct2, THEN conjunct1, THEN spec, of "[2, 3, 1]", THEN mp, OF s2] .
  have b3: "func_baseline [4, 1, 3, 2] = Inr (5 / 2)"
    using t3 [THEN conjunct1, THEN spec, of "[1, 2, 3, 4]", THEN mp, OF s3] unfolding m2 .
  show ?thesis
    by (intro conjI n1 conjunct1 [OF s1] conjunct2 [OF s1] b1 s2 b2 conjunct1 [OF s3] conjunct2 [OF s3] b3)
qed

section \<open>What the estimators read of a loaded trace\<close>















end
